theory Spec2Isabelle
  imports
    Main
    "HOL-Library.Char_ord"
    "HOL-Library.List_Lexorder"
    "HOL-Library.Product_Lexorder"
begin

section \<open>The expense tracker of \<^verbatim>\<open>et.py\<close>\<close>

text \<open>
  The program is one Streamlit script: a sign-up and a login handler over the table
  \<^verbatim>\<open>users\<close>, and, once logged in, sections that insert, update and delete rows of
  the table \<^verbatim>\<open>expenses\<close>, with a dashboard computed from the rows of the logged-in
  user. The two tables are modelled as lists of rows in insertion order, every SQL
  statement as a function from the database to the new database, and every section of
  the page as a function of the database, the click that started the run of the script
  and the entries in its widgets.

  What the script takes from its libraries is modelled as follows.
  \<^item> \<^verbatim>\<open>hashlib.sha256(s.encode()).hexdigest()\<close> is a parameter, a function from
    strings to strings, of every definition that hashes.
  \<^item> \<^verbatim>\<open>INTEGER PRIMARY KEY AUTOINCREMENT\<close> gives a new row an id one above every id
    the table ever held; the table keeps that high-water mark. Ids are natural numbers
    (the exhaustion of 64-bit row ids is not modelled).
  \<^item> The column \<^verbatim>\<open>amount\<close> is \<^verbatim>\<open>REAL\<close> and the frame's column is
    \<^verbatim>\<open>float64\<close>. Every amount comes from a number input with an integer step, so
    amounts are integers that are doubles, and a sum is the double nearest to the exact
    sum.
  \<^item> A button is true only in the run of the script that the click on it started.
  The emoji that start the script's messages are left out of the message strings.
\<close>

subsection \<open>Tables and session\<close>

datatype error = IntegrityError | ValueError | StreamlitAPIException

datatype feedback = Success string | Error string | Warning string

record user_row =
  u_id :: nat
  u_username :: string
  u_password :: string

record expense_row =
  e_id :: nat
  e_user_id :: "nat option"
  e_date :: string
  e_category :: string
  e_amount :: int
  e_note :: string

record db =
  users :: "user_row list"
  users_seq :: nat
  expenses :: "expense_row list"
  expenses_seq :: nat

record session =
  logged_in :: bool
  username :: "string option"

text \<open>\<^verbatim>\<open>init_db\<close> on a fresh file: both tables exist and are empty.\<close>

definition init_db :: db where
  "init_db = \<lparr>users = [], users_seq = 0, expenses = [], expenses_seq = 0\<rparr>"

text \<open>The row id an \<^verbatim>\<open>AUTOINCREMENT\<close> table gives its next row.\<close>

definition next_rowid :: "nat \<Rightarrow> nat list \<Rightarrow> nat" where
  "next_rowid seq ids = Suc (fold max ids seq)"

subsection \<open>Credentials\<close>

definition hash_password :: "(string \<Rightarrow> string) \<Rightarrow> string \<Rightarrow> string" where
  "hash_password sha256_hexdigest password = sha256_hexdigest password"

text \<open>
  \<^verbatim>\<open>INSERT INTO users(username,password) VALUES (?,?)\<close>: the column \<^verbatim>\<open>username\<close> is
  \<^verbatim>\<open>UNIQUE\<close>, so the statement raises \<^verbatim>\<open>sqlite3.IntegrityError\<close> when a row has
  that name.
\<close>

definition insert_user :: "db \<Rightarrow> string \<Rightarrow> string \<Rightarrow> error + db" where
  "insert_user d name hashed =
     (if name \<in> set (map u_username (users d)) then Inl IntegrityError
      else let i = next_rowid (users_seq d) (map u_id (users d))
           in Inr (d\<lparr>users := users d @ [\<lparr>u_id = i, u_username = name, u_password = hashed\<rparr>],
                     users_seq := i\<rparr>))"

definition sign_up ::
  "(string \<Rightarrow> string) \<Rightarrow> db \<Rightarrow> string \<Rightarrow> string \<Rightarrow> string \<Rightarrow> db \<times> feedback" where
  "sign_up H d new_user new_pass confirm_pass =
     (if new_user = [] \<or> new_pass = [] then (d, Error ''Fields cannot be empty.'')
      else if new_pass \<noteq> confirm_pass then (d, Error ''Passwords do not match.'')
      else case insert_user d new_user (hash_password H new_pass) of
             Inr d' \<Rightarrow> (d', Success ''Account created! Please login.'')
           | Inl _ \<Rightarrow> (d, Error ''Username already exists.''))"

text \<open>
  \<^verbatim>\<open>SELECT * FROM users WHERE username=? AND password=?\<close> followed by
  \<^verbatim>\<open>fetchone()\<close>: the first matching row, if any.
\<close>

definition select_user :: "db \<Rightarrow> string \<Rightarrow> string \<Rightarrow> user_row option" where
  "select_user d name hashed =
     find (\<lambda>r. u_username r = name \<and> u_password r = hashed) (users d)"

definition login ::
  "(string \<Rightarrow> string) \<Rightarrow> db \<Rightarrow> session \<Rightarrow> string \<Rightarrow> string \<Rightarrow> session \<times> feedback" where
  "login H d st name password =
     (let hashed = hash_password H password
      in case select_user d name hashed of
           Some user \<Rightarrow>
             (st\<lparr>logged_in := True, username := Some name\<rparr>,
              Success (''Welcome, '' @ name @ ''!''))
         | None \<Rightarrow> (st, Error ''Invalid username or password''))"

definition get_user_id :: "db \<Rightarrow> string \<Rightarrow> nat option" where
  "get_user_id d name = map_option u_id (find (\<lambda>r. u_username r = name) (users d))"

subsection \<open>Calendar dates and their text\<close>

text \<open>
  A \<^verbatim>\<open>datetime.date\<close> is a triple (year, month, day); triples are ordered
  lexicographically, which is the chronological order. Python builds a date only from
  a year between 1 and 9999, a month between 1 and 12 and a day of that month.
\<close>

type_synonym date = "nat \<times> nat \<times> nat"

definition is_leap :: "nat \<Rightarrow> bool" where
  "is_leap y = (y mod 4 = 0 \<and> (y mod 100 \<noteq> 0 \<or> y mod 400 = 0))"

definition days_in_month :: "nat \<Rightarrow> nat \<Rightarrow> nat" where
  "days_in_month y m =
     (if m = 2 then (if is_leap y then 29 else 28)
      else if m = 4 \<or> m = 6 \<or> m = 9 \<or> m = 11 then 30 else 31)"

definition valid_date :: "date \<Rightarrow> bool" where
  "valid_date dt = (case dt of (y, m, d) \<Rightarrow>
     1 \<le> y \<and> y \<le> 9999 \<and> 1 \<le> m \<and> m \<le> 12 \<and> 1 \<le> d \<and> d \<le> days_in_month y m)"

definition digit_char :: "nat \<Rightarrow> char" where
  "digit_char n = char_of (48 + n)"

definition is_digit :: "char \<Rightarrow> bool" where
  "is_digit c = (48 \<le> (of_char c :: nat) \<and> (of_char c :: nat) \<le> 57)"

definition digit_val :: "char \<Rightarrow> nat" where
  "digit_val c = of_char c - 48"

text \<open>\<^verbatim>\<open>str\<close> of a natural number, as the f-strings print a row id.\<close>

fun str_nat :: "nat \<Rightarrow> string" where
  "str_nat n = (if n < 10 then [digit_char n] else str_nat (n div 10) @ [digit_char (n mod 10)])"

declare str_nat.simps [simp del]

text \<open>
  \<^verbatim>\<open>strftime("%Y-%m-%d")\<close> as the C library of Linux gives it: the year in decimal,
  with no padding, and the month and the day in two digits. (Other C libraries pad the
  year to four digits; for the years from 1000 on the texts are the same.)
\<close>

definition strftime_ymd :: "date \<Rightarrow> string" where
  "strftime_ymd dt = (case dt of (y, m, d) \<Rightarrow>
     str_nat y @
     [CHR ''-'', digit_char (m div 10 mod 10), digit_char (m mod 10),
      CHR ''-'', digit_char (d div 10 mod 10), digit_char (d mod 10)])"

text \<open>The fields a text of the shape \<^verbatim>\<open>YYYY-MM-DD\<close> denotes.\<close>

definition date_fields :: "string \<Rightarrow> date" where
  "date_fields s =
     (1000 * digit_val (s ! 0) + 100 * digit_val (s ! 1) + 10 * digit_val (s ! 2)
        + digit_val (s ! 3),
      10 * digit_val (s ! 5) + digit_val (s ! 6),
      10 * digit_val (s ! 8) + digit_val (s ! 9))"

text \<open>
  An ISO date text: ten characters, four digits, a dash, two digits, a dash, two
  digits, naming a date of the calendar.
\<close>

definition iso_date :: "string \<Rightarrow> bool" where
  "iso_date s =
     (length s = 10 \<and> s ! 4 = CHR ''-'' \<and> s ! 7 = CHR ''-'' \<and>
      list_all (\<lambda>i. is_digit (s ! i)) [0, 1, 2, 3, 5, 6, 8, 9] \<and>
      valid_date (date_fields s))"

text \<open>
  \<^verbatim>\<open>pd.to_datetime\<close> on a stored date text, and the parsing \<^verbatim>\<open>st.date_input\<close> does
  of a text default: an ISO date text gives its date. On any other text the model
  raises \<^verbatim>\<open>ValueError\<close> (pandas accepts further formats, which the script never
  writes).
\<close>

definition to_datetime :: "string \<Rightarrow> error + date" where
  "to_datetime s = (if iso_date s then Inr (date_fields s) else Inl ValueError)"

subsection \<open>Amounts\<close>

text \<open>
  The double nearest to an integer, ties to the even significand: an integer of
  magnitude up to \<open>2^53 = 9007199254740992\<close> is a double; a greater one is rounded
  to 53 significant bits. (Overflow of the exponent, beyond \<open>2^1024\<close>, is not
  modelled.)
\<close>

fun ulp_exp :: "nat \<Rightarrow> nat" where
  "ulp_exp a = (if a < 9007199254740992 then 0 else Suc (ulp_exp (a div 2)))"

definition round_to_double :: "int \<Rightarrow> int" where
  "round_to_double n =
     (let a = nat \<bar>n\<bar>
      in if a \<le> 9007199254740992 then n
         else let e = ulp_exp a; q = a div 2 ^ e; r = a mod 2 ^ e; h = 2 ^ (e - 1);
                  q' = (if h < r \<or> (r = h \<and> odd q) then q + 1 else q)
              in sgn n * int (q' * 2 ^ e))"

text \<open>
  The sum of two doubles, and the sum of a column: the additions run from the first
  entry to the last, starting from 0. (Summation in blocks or with a compensation term
  gives another double only where some partial sum is not exact.)
\<close>

definition fadd :: "int \<Rightarrow> int \<Rightarrow> int" where
  "fadd a b = round_to_double (a + b)"

definition fsum :: "int list \<Rightarrow> int" where
  "fsum xs = fold (\<lambda>x s. fadd s x) xs 0"

subsection \<open>Widgets\<close>

text \<open>
  A run of the script is started by at most one click. \<^verbatim>\<open>st.button\<close> and
  \<^verbatim>\<open>st.form_submit_button\<close> return true only in the run that the click on them
  started, and only where the script reaches their call.
\<close>

datatype click = Add_Expense | Edit nat | Save_Changes nat | Delete nat

definition button :: "click option \<Rightarrow> click \<Rightarrow> bool" where
  "button trigger b = (trigger = Some b)"

text \<open>
  \<^verbatim>\<open>st.number_input(min_value=m, step=1, value=v)\<close>: with a default below the minimum
  the call raises; an entry outside the range from the minimum to the greatest integer
  the widget takes, \<open>2^53 - 1\<close>, is replaced by the bound it passes; with no entry
  the widget gives its default.
\<close>

definition number_input :: "int \<Rightarrow> int \<Rightarrow> int option \<Rightarrow> error + int" where
  "number_input min_value initial entry =
     (if initial < min_value then Inl StreamlitAPIException
      else case entry of
             None \<Rightarrow> Inr initial
           | Some v \<Rightarrow> Inr (if v < min_value then min_value
                         else if 9007199254740991 < v then 9007199254740991 else v))"

text \<open>
  \<^verbatim>\<open>st.selectbox(options, index=i)\<close>: the option picked, or the one at the default
  index when nothing (or no position of the list) is picked.
\<close>

definition selectbox :: "'a list \<Rightarrow> nat \<Rightarrow> nat option \<Rightarrow> 'a" where
  "selectbox options index pick =
     (case pick of
        None \<Rightarrow> options ! index
      | Some i \<Rightarrow> if i < length options then options ! i else options ! index)"

text \<open>\<^verbatim>\<open>list.index\<close>: the first position of an element, or \<^verbatim>\<open>ValueError\<close>.\<close>

fun list_index :: "'a list \<Rightarrow> 'a \<Rightarrow> error + nat" where
  "list_index [] x = Inl ValueError"
| "list_index (y # ys) x =
     (if y = x then Inr 0
      else case list_index ys x of Inl e \<Rightarrow> Inl e | Inr i \<Rightarrow> Inr (Suc i))"

text \<open>
  \<^verbatim>\<open>st.date_input(label, value)\<close> with no bounds given: the widget takes a date from
  ten years before its default to ten years after it (the same month and day, the
  last day of February where the 29th is missing); any other pick is not taken and the
  widget gives its default.
\<close>

definition shift_years :: "(nat \<Rightarrow> nat) \<Rightarrow> date \<Rightarrow> date" where
  "shift_years f dt = (case dt of (y, m, d) \<Rightarrow> (f y, m, min d (days_in_month (f y) m)))"

definition date_input :: "date \<Rightarrow> date option \<Rightarrow> date" where
  "date_input initial pick =
     (case pick of
        None \<Rightarrow> initial
      | Some p \<Rightarrow>
          if valid_date p \<and> shift_years (\<lambda>y. y - 10) initial \<le> p
               \<and> p \<le> shift_years (\<lambda>y. y + 10) initial
          then p else initial)"

text \<open>
  \<^verbatim>\<open>datetime.today()\<close> reads the clock, which counts from 1970: the date it gives is
  a date of the calendar, not before that year.
\<close>

definition clock_date :: "date \<Rightarrow> bool" where
  "clock_date today = (valid_date today \<and> 1970 \<le> fst today)"

subsection \<open>The ledger\<close>

text \<open>
  The three statements the script executes on the table \<^verbatim>\<open>expenses\<close>. None of
  them checks its values. The column \<^verbatim>\<open>amount\<close> is \<^verbatim>\<open>REAL\<close>: it stores the
  double nearest to the integer it is given.

  \<^verbatim>\<open>INSERT INTO expenses(user_id,date,category,amount,note) VALUES (?,?,?,?,?)\<close>
\<close>

definition add_expense ::
  "db \<Rightarrow> nat option \<Rightarrow> date \<Rightarrow> string \<Rightarrow> int \<Rightarrow> string \<Rightarrow> db \<times> feedback" where
  "add_expense d user_id dt category amount note =
     (let i = next_rowid (expenses_seq d) (map e_id (expenses d))
      in (d\<lparr>expenses := expenses d @
              [\<lparr>e_id = i, e_user_id = user_id, e_date = strftime_ymd dt,
                e_category = category, e_amount = round_to_double amount, e_note = note\<rparr>],
            expenses_seq := i\<rparr>,
          Success ''Expense added successfully!''))"

text \<open>\<^verbatim>\<open>UPDATE expenses SET date=?,category=?,amount=?,note=? WHERE id=?\<close>\<close>

definition update_expense ::
  "db \<Rightarrow> date \<Rightarrow> string \<Rightarrow> int \<Rightarrow> string \<Rightarrow> nat \<Rightarrow> db \<times> feedback" where
  "update_expense d new_date new_category new_amount new_note row_id =
     (d\<lparr>expenses :=
          map (\<lambda>r. if e_id r = row_id
                    then r\<lparr>e_date := strftime_ymd new_date, e_category := new_category,
                           e_amount := round_to_double new_amount, e_note := new_note\<rparr>
                    else r) (expenses d)\<rparr>,
      Success ''Expense Updated! Refresh to see changes.'')"

text \<open>\<^verbatim>\<open>DELETE FROM expenses WHERE id=?\<close>\<close>

definition delete_expense :: "db \<Rightarrow> nat \<Rightarrow> db \<times> feedback" where
  "delete_expense d row_id =
     (d\<lparr>expenses := filter (\<lambda>r. e_id r \<noteq> row_id) (expenses d)\<rparr>,
      Warning (''Deleted expense ID '' @ str_nat row_id @ ''! Refresh to update list.''))"

text \<open>
  \<^verbatim>\<open>SELECT id,date,category,amount,note FROM expenses WHERE user_id=?\<close> into a data
  frame with the columns ID, Date, Category, Amount, Note. When \<^verbatim>\<open>get_user_id\<close> found
  no user the parameter is NULL, and no row compares equal to NULL.
\<close>

record expense =
  ID :: nat
  Date :: string
  Category :: string
  Amount :: int
  Note :: string

definition get_expenses :: "db \<Rightarrow> nat option \<Rightarrow> expense list" where
  "get_expenses d user_id =
     map (\<lambda>r. \<lparr>ID = e_id r, Date = e_date r, Category = e_category r,
                Amount = e_amount r, Note = e_note r\<rparr>)
       (filter (\<lambda>r. user_id \<noteq> None \<and> e_user_id r = user_id) (expenses d))"

text \<open>
  The section that adds an expense. Its widgets are evaluated in every run; the
  statement runs when the click on \<^verbatim>\<open>Add Expense\<close> started the run. The number
  input has the minimum 1 and, by default, the value of its minimum; the category
  selector starts at its first option; the date input starts at today's date.
\<close>

definition categories :: "string list" where
  "categories = [''Food'', ''Travel'', ''Shopping'', ''Entertainment'', ''Other'']"

definition add_expense_section ::
  "db \<Rightarrow> click option \<Rightarrow> nat option \<Rightarrow> date \<Rightarrow> date option \<Rightarrow> nat option \<Rightarrow> int option
     \<Rightarrow> string \<Rightarrow> error + db \<times> feedback list" where
  "add_expense_section d trigger user_id today date_pick category_pick amount_entry note =
     (let date = date_input today date_pick;
          category = selectbox categories 0 category_pick
      in case number_input 1 1 amount_entry of
           Inl e \<Rightarrow> Inl e
         | Inr amount \<Rightarrow>
             if button trigger Add_Expense
             then (case add_expense d user_id date category amount note of
                     (d', m) \<Rightarrow> Inr (d', [m]))
             else Inr (d, []))"

text \<open>
  The two buttons the script shows under each record of the list. The edit form, with
  its save button, is inside the branch of the \<^verbatim>\<open>Edit\<close> button; the widgets of the
  form start at the values of the record. The \<^verbatim>\<open>Delete\<close> button follows the branch.
  An exception raised by a widget of the form ends the run before any statement.
\<close>

record edit_form =
  date_pick :: "date option"
  category_pick :: "nat option"
  amount_entry :: "int option"
  note_entry :: "string option"

definition edit_form_section ::
  "db \<Rightarrow> click option \<Rightarrow> expense \<Rightarrow> edit_form \<Rightarrow> error + db \<times> feedback list" where
  "edit_form_section d trigger row form =
     (case to_datetime (Date row) of
        Inl e \<Rightarrow> Inl e
      | Inr row_date \<Rightarrow>
          let new_date = date_input row_date (date_pick form)
          in case list_index categories (Category row) of
               Inl e \<Rightarrow> Inl e
             | Inr i \<Rightarrow>
                 let new_category = selectbox categories i (category_pick form)
                 in case number_input 1 (Amount row) (amount_entry form) of
                      Inl e \<Rightarrow> Inl e
                    | Inr new_amount \<Rightarrow>
                        let new_note = (case note_entry form of None \<Rightarrow> Note row | Some n \<Rightarrow> n);
                            save = button trigger (Save_Changes (ID row))
                        in if save
                           then (case update_expense d new_date new_category new_amount
                                        new_note (ID row) of
                                   (d', m) \<Rightarrow> Inr (d', [m]))
                           else Inr (d, []))"

definition expense_row_section ::
  "db \<Rightarrow> click option \<Rightarrow> expense \<Rightarrow> edit_form \<Rightarrow> error + db \<times> feedback list" where
  "expense_row_section d trigger row form =
     (case (if button trigger (Edit (ID row)) then edit_form_section d trigger row form
            else Inr (d, [])) of
        Inl e \<Rightarrow> Inl e
      | Inr (d1, ms) \<Rightarrow>
          if button trigger (Delete (ID row))
          then (case delete_expense d1 (ID row) of (d2, m) \<Rightarrow> Inr (d2, ms @ [m]))
          else Inr (d1, ms))"

text \<open>
  The states of the store the script can produce: it starts from the empty tables;
  a run of the sign-up handler, of the section that adds an expense or of the buttons
  of a displayed record gives the next state.
\<close>

inductive reachable :: "(string \<Rightarrow> string) \<Rightarrow> db \<Rightarrow> bool" for H :: "string \<Rightarrow> string" where
  reach_init: "reachable H init_db"
| reach_sign_up: "reachable H d \<Longrightarrow> reachable H (fst (sign_up H d u p c))"
| reach_add:
    "reachable H d \<Longrightarrow> clock_date today \<Longrightarrow>
     add_expense_section d trigger uid today dp cp ae n = Inr (d', ms) \<Longrightarrow> reachable H d'"
| reach_row:
    "reachable H d \<Longrightarrow> expense_row_section d trigger row form = Inr (d', ms) \<Longrightarrow>
     reachable H d'"

subsection \<open>The dashboard and the reports\<close>

text \<open>
  The reports are computed from the data frame \<^verbatim>\<open>get_expenses\<close> returned, a list of
  rows. \<^verbatim>\<open>df.empty\<close> is the empty list.
\<close>

definition total_expense :: "expense list \<Rightarrow> int" where
  "total_expense df = (if df \<noteq> [] then fsum (map Amount df) else 0)"

text \<open>
  \<^verbatim>\<open>groupby(key)["Amount"].sum()\<close> on a list of (key, amount) pairs: one entry for
  each key that occurs, in ascending order of the keys, with the sum of the amounts
  of its rows. Strings are ordered as Python orders them, character by character.
\<close>

definition groupby_sum :: "('k::linorder \<times> int) list \<Rightarrow> ('k \<times> int) list" where
  "groupby_sum kvs =
     map (\<lambda>k. (k, fsum (map snd (filter (\<lambda>kv. fst kv = k) kvs))))
       (sort (remdups (map fst kvs)))"


definition category_summary :: "expense list \<Rightarrow> (string \<times> int) list" where
  "category_summary df = groupby_sum (map (\<lambda>r. (Category r, Amount r)) df)"


text \<open>
  \<^verbatim>\<open>pd.to_datetime\<close> of a column: the dates of its texts, or the error of the first
  text that has none.
\<close>

fun to_datetime_col :: "string list \<Rightarrow> error + date list" where
  "to_datetime_col [] = Inr []"
| "to_datetime_col (s # ss) =
     (case to_datetime s of
        Inl e \<Rightarrow> Inl e
      | Inr dt \<Rightarrow> (case to_datetime_col ss of Inl e \<Rightarrow> Inl e | Inr ds \<Rightarrow> Inr (dt # ds)))"

text \<open>Indexing a frame by a boolean column keeps the rows whose entry is true.\<close>

definition mask_rows :: "'a list \<Rightarrow> bool list \<Rightarrow> 'a list" where
  "mask_rows rows keep = map fst (filter snd (zip rows keep))"

text \<open>
  The filter of the expense list, from the values of its three widgets: a category or
  \<^verbatim>\<open>"All"\<close>, a start date and an end date.
\<close>

definition filter_expenses ::
  "expense list \<Rightarrow> string \<Rightarrow> date \<Rightarrow> date \<Rightarrow> error + expense list" where
  "filter_expenses df filter_category start_date end_date =
     (let filtered_df =
            (if filter_category \<noteq> ''All''
             then filter (\<lambda>r. Category r = filter_category) df else df)
      in case to_datetime_col (map Date filtered_df) of
           Inl e \<Rightarrow> Inl e
         | Inr ds \<Rightarrow>
             Inr (mask_rows filtered_df (map (\<lambda>dt. start_date \<le> dt \<and> dt \<le> end_date) ds)))"

text \<open>
  The defaults of the two date widgets are \<^verbatim>\<open>df["Date"].min()\<close> and
  \<^verbatim>\<open>df["Date"].max()\<close>, the least and the greatest date text of the column in the
  order of strings, which the widget reads as a date. They are computed only for a
  frame that is not empty.
\<close>

fun col_min :: "'a::linorder list \<Rightarrow> 'a option" where
  "col_min [] = None"
| "col_min (x # xs) = Some (fold min xs x)"

fun col_max :: "'a::linorder list \<Rightarrow> 'a option" where
  "col_max [] = None"
| "col_max (x # xs) = Some (fold max xs x)"

definition default_start_date :: "expense list \<Rightarrow> (error + date) option" where
  "default_start_date df = map_option to_datetime (col_min (map Date df))"

definition default_end_date :: "expense list \<Rightarrow> (error + date) option" where
  "default_end_date df = map_option to_datetime (col_max (map Date df))"



subsection \<open>Notions the properties are stated with\<close>

text \<open>The exact sum of the amounts of a category in a frame.\<close>

definition category_total :: "expense list \<Rightarrow> string \<Rightarrow> int" where
  "category_total df c = sum_list (map Amount (filter (\<lambda>r. Category r = c) df))"

text \<open>
  The date a stored record's date text denotes, its calendar month (the year and the
  month of that date), and the exact sum of the amounts of a month in a frame.
\<close>

definition record_date :: "expense \<Rightarrow> date" where
  "record_date r = date_fields (Date r)"



section \<open>Properties\<close>

subsection \<open>Credentials\<close>

lemma sign_up_success:
  assumes "sign_up H d u p c = (d', Success m)"
  shows "u \<noteq> [] \<and> p \<noteq> [] \<and> c = p \<and> u \<notin> set (map u_username (users d)) \<and>
         users d' = users d @
           [\<lparr>u_id = next_rowid (users_seq d) (map u_id (users d)),
             u_username = u, u_password = H p\<rparr>]"
  using assms
  by (auto simp: sign_up_def insert_user_def hash_password_def Let_def
      split: if_splits sum.splits)

lemma find_append_miss:
  "\<forall>x\<in>set xs. \<not> P x \<Longrightarrow> find P (xs @ ys) = find P ys"
  by (induction xs) auto

text \<open>
  C1. Right after a sign-up that succeeded, a login with the same name and secret finds
  the row just inserted, binds the session to the name and greets the user; a login
  with the same name and any secret whose hash differs finds no row, leaves the session
  as it was and reports the failure.
\<close>

theorem login_after_sign_up:
  assumes "sign_up H d u p c = (d', Success m)"
  shows "u \<noteq> [] \<and> p \<noteq> [] \<and>
         select_user d' u (hash_password H p) =
           Some \<lparr>u_id = next_rowid (users_seq d) (map u_id (users d)),
                 u_username = u, u_password = hash_password H p\<rparr> \<and>
         login H d' st u p =
           (st\<lparr>logged_in := True, username := Some u\<rparr>, Success (''Welcome, '' @ u @ ''!'')) \<and>
         (\<forall>s'. H s' \<noteq> H p \<longrightarrow>
            select_user d' u (hash_password H s') = None \<and>
            login H d' st u s' = (st, Error ''Invalid username or password''))"
proof -
  from sign_up_success [OF assms]
  have ne: "u \<noteq> []" "p \<noteq> []"
    and fresh: "u \<notin> set (map u_username (users d))"
    and us: "users d' = users d @
           [\<lparr>u_id = next_rowid (users_seq d) (map u_id (users d)),
             u_username = u, u_password = H p\<rparr>]"
    by simp_all
  have miss: "\<forall>r\<in>set (users d). \<not> (u_username r = u \<and> u_password r = h)" for h
    using fresh by auto
  have sel: "select_user d' u h =
      (if h = H p
       then Some \<lparr>u_id = next_rowid (users_seq d) (map u_id (users d)),
                  u_username = u, u_password = H p\<rparr>
       else None)" for h
    unfolding select_user_def us using find_append_miss [OF miss] by auto
  show ?thesis
    using ne by (auto simp: login_def sel hash_password_def)
qed

theorem login_after_sign_up_witness:
  "sign_up rev init_db ''ann'' ''pw1'' ''pw1'' =
     (\<lparr>users = [\<lparr>u_id = 1, u_username = ''ann'', u_password = ''1wp''\<rparr>], users_seq = 1,
       expenses = [], expenses_seq = 0\<rparr>, Success ''Account created! Please login.'') \<and>
   login rev
     \<lparr>users = [\<lparr>u_id = 1, u_username = ''ann'', u_password = ''1wp''\<rparr>], users_seq = 1,
      expenses = [], expenses_seq = 0\<rparr>
     \<lparr>logged_in = False, username = None\<rparr> ''ann'' ''pw1'' =
     (\<lparr>logged_in = True, username = Some ''ann''\<rparr>, Success ''Welcome, ann!'') \<and>
   login rev
     \<lparr>users = [\<lparr>u_id = 1, u_username = ''ann'', u_password = ''1wp''\<rparr>], users_seq = 1,
      expenses = [], expenses_seq = 0\<rparr>
     \<lparr>logged_in = False, username = None\<rparr> ''ann'' ''pw2'' =
     (\<lparr>logged_in = False, username = None\<rparr>, Error ''Invalid username or password'')"
proof -
  have s: "sign_up rev init_db ''ann'' ''pw1'' ''pw1'' =
     (\<lparr>users = [\<lparr>u_id = 1, u_username = ''ann'', u_password = ''1wp''\<rparr>], users_seq = 1,
       expenses = [], expenses_seq = 0\<rparr>, Success ''Account created! Please login.'')"
    by (simp add: sign_up_def insert_user_def hash_password_def init_db_def next_rowid_def)
  have h: "rev ''pw2'' \<noteq> rev ''pw1''" by simp
  show ?thesis
    using login_after_sign_up [OF s, of "\<lparr>logged_in = False, username = None\<rparr>"] h s
    by simp
qed

text \<open>
  C9. A failed login has one outcome: whether the name has a row whose stored hash
  differs, or has no row at all, the session is left as it was and the message is the
  same.
\<close>

theorem login_failure_uniform:
  assumes "u1 \<in> set (map u_username (users d))"
    and "select_user d u1 (hash_password H s1) = None"
    and "u2 \<notin> set (map u_username (users d))"
  shows "login H d st u1 s1 = (st, Error ''Invalid username or password'') \<and>
         login H d st u2 s2 = (st, Error ''Invalid username or password'') \<and>
         login H d st u1 s1 = login H d st u2 s2"
proof -
  have "\<forall>r\<in>set (users d). \<not> (u_username r = u2 \<and> u_password r = h)" for h
    using assms(3) by auto
  then have "select_user d u2 h = None" for h
    unfolding select_user_def by (simp add: find_None_iff)
  with assms(2) show ?thesis
    by (simp add: login_def)
qed

theorem login_failure_uniform_witness:
  "login rev
     \<lparr>users = [\<lparr>u_id = 1, u_username = ''ann'', u_password = ''1wp''\<rparr>], users_seq = 1,
      expenses = [], expenses_seq = 0\<rparr>
     \<lparr>logged_in = False, username = None\<rparr> ''ann'' ''bad'' =
   login rev
     \<lparr>users = [\<lparr>u_id = 1, u_username = ''ann'', u_password = ''1wp''\<rparr>], users_seq = 1,
      expenses = [], expenses_seq = 0\<rparr>
     \<lparr>logged_in = False, username = None\<rparr> ''bob'' ''pw1''"
  using login_failure_uniform [of "''ann''"
     "\<lparr>users = [\<lparr>u_id = 1, u_username = ''ann'', u_password = ''1wp''\<rparr>], users_seq = 1,
      expenses = [], expenses_seq = 0\<rparr>" rev "''bad''" "''bob''"
     "\<lparr>logged_in = False, username = None\<rparr>" "''pw1''"]
  by (simp add: select_user_def hash_password_def)


subsection \<open>Dates and their text\<close>

lemma digit_char_table:
  "digit_char 0 = CHR ''0''" "digit_char (Suc 0) = CHR ''1''" "digit_char 2 = CHR ''2''"
  "digit_char 3 = CHR ''3''" "digit_char 4 = CHR ''4''" "digit_char 5 = CHR ''5''"
  "digit_char 6 = CHR ''6''" "digit_char 7 = CHR ''7''" "digit_char 8 = CHR ''8''"
  "digit_char 9 = CHR ''9''"
  by code_simp+

lemma digit_val_digit_char: "n < 10 \<Longrightarrow> digit_val (digit_char n) = n"
  by (simp add: digit_val_def digit_char_def)

lemma is_digit_digit_char: "n < 10 \<Longrightarrow> is_digit (digit_char n)"
  by (simp add: digit_char_def is_digit_def)

lemma decimal_linear:
  "y = 10 * a + r0 \<Longrightarrow> a = 10 * b + r1 \<Longrightarrow> b = 10 * c + r2 \<Longrightarrow>
   1000 * c + 100 * r2 + 10 * r1 + r0 = (y::nat)"
  by simp

lemma decimal4:
  assumes "y \<le> 9999"
  shows "1000 * (y div 1000 mod 10) + 100 * (y div 100 mod 10) + 10 * (y div 10 mod 10)
           + y mod 10 = (y::nat)"
proof -
  have c: "y div 1000 < 10" using assms by (simp add: less_mult_imp_div_less)
  have d1: "y div 100 = y div 10 div 10" by (simp add: div_mult2_eq)
  have d2: "y div 1000 = y div 10 div 10 div 10" by (simp add: div_mult2_eq)
  have e0: "y = 10 * (y div 10) + y mod 10" by simp
  have e1: "y div 10 = 10 * (y div 10 div 10) + y div 10 mod 10" by simp
  have e2: "y div 10 div 10 = 10 * (y div 10 div 10 div 10) + y div 10 div 10 mod 10" by simp
  have "y div 1000 mod 10 = y div 1000" using c by simp
  then show ?thesis
    unfolding d1 d2 using decimal_linear [OF e0 e1 e2] by simp
qed

lemma decimal2:
  assumes "m \<le> 99"
  shows "10 * (m div 10 mod 10) + m mod 10 = (m::nat)"
proof -
  have "m div 10 < 10" using assms by (simp add: less_mult_imp_div_less)
  then have "m div 10 mod 10 = m div 10" by simp
  then show ?thesis by simp
qed

lemma days_in_month_le: "days_in_month y m \<le> 31"
  by (simp add: days_in_month_def)

text \<open>A year of four digits is printed with its four digits.\<close>

lemma str_nat_four:
  assumes "1000 \<le> y" "y \<le> 9999"
  shows "str_nat y =
     [digit_char (y div 1000 mod 10), digit_char (y div 100 mod 10),
      digit_char (y div 10 mod 10), digit_char (y mod 10)]"
proof -
  have d1: "y div 100 = y div 10 div 10" by (simp add: div_mult2_eq)
  have d2: "y div 1000 = y div 10 div 10 div 10" by (simp add: div_mult2_eq)
  have g0: "\<not> y < 10" using assms(1) by simp
  have g1: "\<not> y div 10 < 10"
    using assms(1) by (simp add: not_less less_eq_div_iff_mult_less_eq)
  have g2: "\<not> y div 10 div 10 < 10"
    using assms(1) by (simp add: not_less less_eq_div_iff_mult_less_eq)
  have g3: "y div 10 div 10 div 10 < 10"
    using assms(2) unfolding d2 [symmetric] by (simp add: less_mult_imp_div_less)
  have s3: "str_nat (y div 10 div 10 div 10) = [digit_char (y div 10 div 10 div 10)]"
    using g3 by (subst str_nat.simps) simp
  have s2: "str_nat (y div 10 div 10) =
      [digit_char (y div 10 div 10 div 10), digit_char (y div 10 div 10 mod 10)]"
    using g2 s3 by (subst str_nat.simps) simp
  have s1: "str_nat (y div 10) =
      [digit_char (y div 10 div 10 div 10), digit_char (y div 10 div 10 mod 10),
       digit_char (y div 10 mod 10)]"
    using g1 s2 by (subst str_nat.simps) simp
  have s0: "str_nat y =
      [digit_char (y div 10 div 10 div 10), digit_char (y div 10 div 10 mod 10),
       digit_char (y div 10 mod 10), digit_char (y mod 10)]"
    using g0 s1 by (subst str_nat.simps) simp
  have "y div 10 div 10 div 10 mod 10 = y div 10 div 10 div 10" using g3 by simp
  then show ?thesis
    unfolding s0 d1 d2 by simp
qed

lemma strftime_four:
  assumes "1000 \<le> y" "y \<le> 9999"
  shows "strftime_ymd (y, m, d) =
     [digit_char (y div 1000 mod 10), digit_char (y div 100 mod 10),
      digit_char (y div 10 mod 10), digit_char (y mod 10), CHR ''-'',
      digit_char (m div 10 mod 10), digit_char (m mod 10), CHR ''-'',
      digit_char (d div 10 mod 10), digit_char (d mod 10)]"
  by (simp add: strftime_ymd_def str_nat_four [OF assms])

lemma date_fields_strftime:
  assumes "1000 \<le> y" "y \<le> 9999" "m \<le> 99" "d \<le> 99"
  shows "date_fields (strftime_ymd (y, m, d)) = (y, m, d)"
  using decimal4 [OF assms(2)] decimal2 [OF assms(3)] decimal2 [OF assms(4)]
  unfolding strftime_four [OF assms(1,2)]
  by (simp add: date_fields_def digit_val_digit_char)

lemma valid_date_bounds:
  assumes "valid_date (y, m, d)"
  shows "y \<le> 9999" "m \<le> 99" "d \<le> 99"
  using assms days_in_month_le [of y m] by (auto simp: valid_date_def)

lemma iso_date_strftime:
  assumes "valid_date dt" "1000 \<le> fst dt"
  shows "iso_date (strftime_ymd dt)"
proof -
  obtain y m d where dt: "dt = (y, m, d)" by (cases dt) auto
  note b = valid_date_bounds [OF assms(1) [unfolded dt]]
  have y: "1000 \<le> y" using assms(2) by (simp add: dt)
  have f: "date_fields (strftime_ymd (y, m, d)) = (y, m, d)"
    by (rule date_fields_strftime [OF y b])
  have shape: "length (strftime_ymd (y, m, d)) = 10"
    "strftime_ymd (y, m, d) ! 4 = CHR ''-''" "strftime_ymd (y, m, d) ! 7 = CHR ''-''"
    "list_all (\<lambda>i. is_digit (strftime_ymd (y, m, d) ! i)) [0, 1, 2, 3, 5, 6, 8, 9]"
    unfolding strftime_four [OF y b(1)] by (simp_all add: is_digit_digit_char)
  show ?thesis
    unfolding dt iso_date_def f using shape assms(1) [unfolded dt] by simp
qed

text \<open>The date input of the add section gives a date whose year has four digits.\<close>

lemma date_input_today:
  assumes "clock_date today"
  shows "valid_date (date_input today pick)" "1000 \<le> fst (date_input today pick)"
proof -
  obtain y m d where t: "today = (y, m, d)" by (cases today) auto
  from assms have v: "valid_date today" and y: "1970 \<le> y"
    by (simp_all add: clock_date_def t)
  have low: "1960 \<le> fst p" if "shift_years (\<lambda>y. y - 10) today \<le> p" for p
  proof -
    obtain py pm pd where p: "p = (py, pm, pd)" by (cases p) auto
    from that have "y - 10 \<le> py"
      by (auto simp: shift_years_def t p)
    with y show ?thesis by (simp add: p)
  qed
  show "valid_date (date_input today pick)"
    using v by (simp add: date_input_def split: option.splits)
  show "1000 \<le> fst (date_input today pick)"
  proof (cases pick)
    case None
    with y show ?thesis by (simp add: date_input_def t)
  next
    case (Some p)
    show ?thesis
    proof (cases "valid_date p \<and> shift_years (\<lambda>y. y - 10) today \<le> p
        \<and> p \<le> shift_years (\<lambda>y. y + 10) today")
      case True
      have "date_input today pick = p"
        by (simp only: date_input_def Some option.case if_P [OF True])
      with True low [of p] show ?thesis by simp
    next
      case False
      have "date_input today pick = today"
        by (simp only: date_input_def Some option.case if_not_P [OF False])
      with y show ?thesis by (simp add: t)
    qed
  qed
qed

subsection \<open>Row ids\<close>

lemma fold_max_bounds:
  "(s::nat) \<le> fold max ids s \<and> (\<forall>x\<in>set ids. x \<le> fold max ids s)"
proof (induction ids arbitrary: s)
  case Nil
  show ?case by simp
next
  case (Cons a ids)
  from Cons.IH [of "max a s"] show ?case by auto
qed

lemma next_rowid_fresh: "next_rowid s ids \<notin> set ids"
  using fold_max_bounds [of s ids] by (auto simp: next_rowid_def)

lemma next_rowid_above: "x \<in> set ids \<Longrightarrow> x < next_rowid s ids"
  using fold_max_bounds [of s ids] by (auto simp: next_rowid_def)

subsection \<open>Amounts\<close>

lemma round_to_double_exact:
  assumes "\<bar>n\<bar> \<le> 9007199254740992"
  shows "round_to_double n = n"
proof -
  from assms have "nat \<bar>n\<bar> \<le> 9007199254740992" by linarith
  then show ?thesis by (simp only: round_to_double_def Let_def if_True)
qed

lemma fold_fadd_exact:
  assumes "\<forall>x\<in>set xs. 0 \<le> x" "0 \<le> s" "s + sum_list xs \<le> 9007199254740992"
  shows "fold (\<lambda>x s. fadd s x) xs s = s + sum_list xs"
  using assms
proof (induction xs arbitrary: s)
  case Nil
  show ?case by simp
next
  case (Cons x xs)
  from Cons.prems have x: "0 \<le> x" and r: "0 \<le> sum_list xs"
    by (simp_all add: sum_list_nonneg)
  with Cons.prems have "\<bar>s + x\<bar> \<le> 9007199254740992" by simp
  then have f: "fadd s x = s + x" by (simp add: fadd_def round_to_double_exact)
  have "fold (\<lambda>x s. fadd s x) xs (s + x) = (s + x) + sum_list xs"
    using Cons.prems x by (intro Cons.IH) simp_all
  then show ?case by (simp add: f)
qed

lemma fsum_exact:
  assumes "\<forall>x\<in>set xs. 0 \<le> x" "sum_list xs \<le> 9007199254740992"
  shows "fsum xs = sum_list xs"
  using fold_fadd_exact [OF assms(1), of 0] assms(2) by (simp add: fsum_def)

lemma number_input_range:
  "\<exists>amount. number_input 1 1 entry = Inr amount \<and> 1 \<le> amount \<and> amount \<le> 9007199254740991 \<and>
     round_to_double amount = amount \<and>
     (\<forall>v. entry = Some v \<longrightarrow>
        amount = (if v < 1 then 1 else if 9007199254740991 < v then 9007199254740991 else v))"
  by (cases entry) (auto simp: number_input_def round_to_double_exact)

lemma selectbox_member:
  "index < length options \<Longrightarrow> selectbox options index pick \<in> set options"
  by (simp add: selectbox_def split: option.splits)

subsection \<open>The ledger\<close>

lemma expenses_sign_up: "expenses (fst (sign_up H d u p c)) = expenses d"
  by (simp add: sign_up_def insert_user_def Let_def split: sum.splits)

lemma expenses_add_expense:
  "expenses (fst (add_expense d uid dt c a n)) =
     expenses d @
       [\<lparr>e_id = next_rowid (expenses_seq d) (map e_id (expenses d)), e_user_id = uid,
         e_date = strftime_ymd dt, e_category = c, e_amount = round_to_double a, e_note = n\<rparr>]"
  by (simp add: add_expense_def Let_def)

lemma expenses_delete_expense:
  "expenses (fst (delete_expense d i)) = filter (\<lambda>r. e_id r \<noteq> i) (expenses d)"
  by (simp add: delete_expense_def)

text \<open>
  C5, as the script has it. The section that adds an expense has no failure for an
  amount: the number input gives an amount from 1 to \<open>2^53 - 1\<close> whatever is
  entered (the entry itself when it lies in that range, the minimum 1 for an entry
  below it), the selector gives a category of the enumeration, and the click on the
  button appends exactly one row with these values, under an id that no row of the
  table has, and shows the message of success. No id is returned.
\<close>

theorem add_expense_section_appends:
  "\<exists>amount.
     number_input 1 1 entry = Inr amount \<and> 1 \<le> amount \<and> amount \<le> 9007199254740991 \<and>
     (\<forall>v. entry = Some v \<longrightarrow>
        amount = (if v < 1 then 1 else if 9007199254740991 < v then 9007199254740991 else v)) \<and>
     selectbox categories 0 cp \<in> set categories \<and>
     next_rowid (expenses_seq d) (map e_id (expenses d)) \<notin> set (map e_id (expenses d)) \<and>
     add_expense_section d (Some Add_Expense) uid today dp cp entry note =
       Inr (d\<lparr>expenses := expenses d @
               [\<lparr>e_id = next_rowid (expenses_seq d) (map e_id (expenses d)),
                 e_user_id = uid, e_date = strftime_ymd (date_input today dp),
                 e_category = selectbox categories 0 cp, e_amount = amount,
                 e_note = note\<rparr>],
              expenses_seq := next_rowid (expenses_seq d) (map e_id (expenses d))\<rparr>,
            [Success ''Expense added successfully!''])"
proof -
  from number_input_range [of entry] obtain amount where
    a: "number_input 1 1 entry = Inr amount" "1 \<le> amount" "amount \<le> 9007199254740991"
      "round_to_double amount = amount"
      "\<forall>v. entry = Some v \<longrightarrow>
        amount = (if v < 1 then 1 else if 9007199254740991 < v then 9007199254740991 else v)"
    by blast
  have c: "selectbox categories 0 cp \<in> set categories"
    by (rule selectbox_member) (simp add: categories_def)
  have f: "next_rowid (expenses_seq d) (map e_id (expenses d)) \<notin> set (map e_id (expenses d))"
    by (rule next_rowid_fresh)
  have s: "add_expense_section d (Some Add_Expense) uid today dp cp entry note =
       Inr (d\<lparr>expenses := expenses d @
               [\<lparr>e_id = next_rowid (expenses_seq d) (map e_id (expenses d)),
                 e_user_id = uid, e_date = strftime_ymd (date_input today dp),
                 e_category = selectbox categories 0 cp, e_amount = amount,
                 e_note = note\<rparr>],
              expenses_seq := next_rowid (expenses_seq d) (map e_id (expenses d))\<rparr>,
            [Success ''Expense added successfully!''])"
    by (simp add: add_expense_section_def a(1) a(4) button_def add_expense_def Let_def)
  from a(1,2,3,5) c f s show ?thesis by blast
qed

theorem add_expense_section_appends_witness:
  "add_expense_section init_db (Some Add_Expense) (Some 7) (2025, 6, 1) (Some (2025, 6, 5))
     (Some 1) (Some 100) ''taxi'' =
     Inr (\<lparr>users = [], users_seq = 0,
           expenses = [\<lparr>e_id = 1, e_user_id = Some 7, e_date = ''2025-06-05'',
                        e_category = ''Travel'', e_amount = 100, e_note = ''taxi''\<rparr>],
           expenses_seq = 1\<rparr>,
          [Success ''Expense added successfully!''])"
proof -
  have n: "number_input 1 1 (Some 100) = Inr 100" by (simp add: number_input_def)
  have v: "valid_date (2025, 6, 5)" by (simp add: valid_date_def days_in_month_def)
  have dt: "date_input (2025, 6, 1) (Some (2025, 6, 5)) = (2025, 6, 5)"
    by (simp add: date_input_def v shift_years_def days_in_month_def)
  have y: "strftime_ymd (2025, 6, 5) = ''2025-06-05''"
    by (simp add: strftime_ymd_def str_nat.simps digit_char_table)
  have c: "selectbox categories 0 (Some 1) = ''Travel''"
    by (simp add: selectbox_def categories_def)
  from add_expense_section_appends
    [of "Some 100" "Some 1" init_db "Some 7" "(2025, 6, 1)" "Some (2025, 6, 5)" "''taxi''"]
  show ?thesis
    unfolding n dt y c by (auto simp: init_db_def next_rowid_def)
qed

text \<open>
  C5 as stated fails: with 0 entered as the amount, the click on the button is no
  failure; the number input gives its minimum and the row is appended with the
  amount 1.
\<close>

theorem add_entry_below_minimum:
  "add_expense_section init_db (Some Add_Expense) (Some 7) (2025, 6, 1) None None
     (Some 0) ''lunch'' =
     Inr (\<lparr>users = [], users_seq = 0,
           expenses = [\<lparr>e_id = 1, e_user_id = Some 7, e_date = ''2025-06-01'',
                        e_category = ''Food'', e_amount = 1, e_note = ''lunch''\<rparr>],
           expenses_seq = 1\<rparr>,
          [Success ''Expense added successfully!''])"
  by (simp add: add_expense_section_def number_input_def date_input_def selectbox_def
      categories_def button_def add_expense_def round_to_double_def init_db_def
      next_rowid_def strftime_ymd_def str_nat.simps digit_char_table)

subsection \<open>The buttons of a record\<close>

text \<open>
  The branch of the \<^verbatim>\<open>Edit\<close> button is entered only in the run that the click on
  \<^verbatim>\<open>Edit\<close> started, and there the save button of the form is false: the section
  changes the store only by the \<^verbatim>\<open>DELETE\<close> of its record.
\<close>

lemma edit_form_section_no_save:
  assumes "trigger \<noteq> Some (Save_Changes (ID row))"
    and "edit_form_section d trigger row form = Inr (d', ms)"
  shows "d' = d \<and> ms = []"
  using assms
  by (auto simp: edit_form_section_def button_def Let_def split: sum.splits)

lemma expense_row_section_store:
  assumes "expense_row_section d trigger row form = Inr (d', ms)"
  shows "d' = (if trigger = Some (Delete (ID row)) then fst (delete_expense d (ID row)) else d)"
proof (cases "trigger = Some (Edit (ID row))")
  case True
  then have ns: "trigger \<noteq> Some (Save_Changes (ID row))"
    and nd: "trigger \<noteq> Some (Delete (ID row))" by simp_all
  from assms True nd obtain r where r: "edit_form_section d trigger row form = Inr r"
    by (auto simp: expense_row_section_def button_def split: sum.splits)
  obtain d1 ms1 where r1: "r = (d1, ms1)" by (cases r) auto
  from edit_form_section_no_save [OF ns r [unfolded r1]] have "d1 = d" by simp
  with assms True nd r r1 show ?thesis
    by (simp add: expense_row_section_def button_def)
next
  case False
  with assms show ?thesis
    by (auto simp: expense_row_section_def button_def split: if_splits prod.splits)
qed

text \<open>
  C3 fails in the script. A record is added; the run that the click on its \<^verbatim>\<open>Edit\<close>
  button starts shows the form and changes nothing; the run that the click on
  \<^verbatim>\<open>Save Changes\<close> starts, with new values entered in the form, does not reach the
  form, because the \<^verbatim>\<open>Edit\<close> button is false in it, and changes nothing either. The
  listing of the owner still has the record as it was added.
\<close>

theorem edit_save_leaves_record:
  "add_expense_section init_db (Some Add_Expense) (Some 7) (2025, 6, 1) (Some (2025, 6, 5))
     (Some 0) (Some 100) ''lunch'' =
     Inr (\<lparr>users = [], users_seq = 0,
           expenses = [\<lparr>e_id = 1, e_user_id = Some 7, e_date = ''2025-06-05'',
                        e_category = ''Food'', e_amount = 100, e_note = ''lunch''\<rparr>],
           expenses_seq = 1\<rparr>,
          [Success ''Expense added successfully!'']) \<and>
   get_expenses
     \<lparr>users = [], users_seq = 0,
      expenses = [\<lparr>e_id = 1, e_user_id = Some 7, e_date = ''2025-06-05'',
                   e_category = ''Food'', e_amount = 100, e_note = ''lunch''\<rparr>],
      expenses_seq = 1\<rparr> (Some 7) =
     [\<lparr>ID = 1, Date = ''2025-06-05'', Category = ''Food'', Amount = 100, Note = ''lunch''\<rparr>] \<and>
   expense_row_section
     \<lparr>users = [], users_seq = 0,
      expenses = [\<lparr>e_id = 1, e_user_id = Some 7, e_date = ''2025-06-05'',
                   e_category = ''Food'', e_amount = 100, e_note = ''lunch''\<rparr>],
      expenses_seq = 1\<rparr>
     (Some (Edit 1))
     \<lparr>ID = 1, Date = ''2025-06-05'', Category = ''Food'', Amount = 100, Note = ''lunch''\<rparr>
     \<lparr>date_pick = None, category_pick = None, amount_entry = None, note_entry = None\<rparr> =
     Inr (\<lparr>users = [], users_seq = 0,
           expenses = [\<lparr>e_id = 1, e_user_id = Some 7, e_date = ''2025-06-05'',
                        e_category = ''Food'', e_amount = 100, e_note = ''lunch''\<rparr>],
           expenses_seq = 1\<rparr>, []) \<and>
   expense_row_section
     \<lparr>users = [], users_seq = 0,
      expenses = [\<lparr>e_id = 1, e_user_id = Some 7, e_date = ''2025-06-05'',
                   e_category = ''Food'', e_amount = 100, e_note = ''lunch''\<rparr>],
      expenses_seq = 1\<rparr>
     (Some (Save_Changes 1))
     \<lparr>ID = 1, Date = ''2025-06-05'', Category = ''Food'', Amount = 100, Note = ''lunch''\<rparr>
     \<lparr>date_pick = Some (2025, 7, 1), category_pick = Some 1, amount_entry = Some 50,
      note_entry = Some ''bus''\<rparr> =
     Inr (\<lparr>users = [], users_seq = 0,
           expenses = [\<lparr>e_id = 1, e_user_id = Some 7, e_date = ''2025-06-05'',
                        e_category = ''Food'', e_amount = 100, e_note = ''lunch''\<rparr>],
           expenses_seq = 1\<rparr>, [])"
proof -
  have i: "iso_date ''2025-06-05''"
    by (simp add: iso_date_def date_fields_def digit_val_def is_digit_def valid_date_def
        days_in_month_def is_leap_def)
  have v: "valid_date (2025, 6, 5)" by (simp add: valid_date_def days_in_month_def)
  have a: "add_expense_section init_db (Some Add_Expense) (Some 7) (2025, 6, 1)
      (Some (2025, 6, 5)) (Some 0) (Some 100) ''lunch'' =
     Inr (\<lparr>users = [], users_seq = 0,
           expenses = [\<lparr>e_id = 1, e_user_id = Some 7, e_date = ''2025-06-05'',
                        e_category = ''Food'', e_amount = 100, e_note = ''lunch''\<rparr>],
           expenses_seq = 1\<rparr>,
          [Success ''Expense added successfully!''])"
    by (simp add: add_expense_section_def number_input_def date_input_def v shift_years_def
        days_in_month_def selectbox_def categories_def button_def add_expense_def
        round_to_double_def init_db_def next_rowid_def strftime_ymd_def str_nat.simps
        digit_char_table)
  have g: "get_expenses
     \<lparr>users = [], users_seq = 0,
      expenses = [\<lparr>e_id = 1, e_user_id = Some 7, e_date = ''2025-06-05'',
                   e_category = ''Food'', e_amount = 100, e_note = ''lunch''\<rparr>],
      expenses_seq = 1\<rparr> (Some 7) =
     [\<lparr>ID = 1, Date = ''2025-06-05'', Category = ''Food'', Amount = 100, Note = ''lunch''\<rparr>]"
    by (simp add: get_expenses_def)
  have e: "expense_row_section
     \<lparr>users = [], users_seq = 0,
      expenses = [\<lparr>e_id = 1, e_user_id = Some 7, e_date = ''2025-06-05'',
                   e_category = ''Food'', e_amount = 100, e_note = ''lunch''\<rparr>],
      expenses_seq = 1\<rparr>
     (Some (Edit 1))
     \<lparr>ID = 1, Date = ''2025-06-05'', Category = ''Food'', Amount = 100, Note = ''lunch''\<rparr>
     \<lparr>date_pick = None, category_pick = None, amount_entry = None, note_entry = None\<rparr> =
     Inr (\<lparr>users = [], users_seq = 0,
           expenses = [\<lparr>e_id = 1, e_user_id = Some 7, e_date = ''2025-06-05'',
                        e_category = ''Food'', e_amount = 100, e_note = ''lunch''\<rparr>],
           expenses_seq = 1\<rparr>, [])"
    by (simp add: expense_row_section_def edit_form_section_def button_def to_datetime_def i
        categories_def number_input_def)
  have s: "expense_row_section
     \<lparr>users = [], users_seq = 0,
      expenses = [\<lparr>e_id = 1, e_user_id = Some 7, e_date = ''2025-06-05'',
                   e_category = ''Food'', e_amount = 100, e_note = ''lunch''\<rparr>],
      expenses_seq = 1\<rparr>
     (Some (Save_Changes 1))
     \<lparr>ID = 1, Date = ''2025-06-05'', Category = ''Food'', Amount = 100, Note = ''lunch''\<rparr>
     \<lparr>date_pick = Some (2025, 7, 1), category_pick = Some 1, amount_entry = Some 50,
      note_entry = Some ''bus''\<rparr> =
     Inr (\<lparr>users = [], users_seq = 0,
           expenses = [\<lparr>e_id = 1, e_user_id = Some 7, e_date = ''2025-06-05'',
                        e_category = ''Food'', e_amount = 100, e_note = ''lunch''\<rparr>],
           expenses_seq = 1\<rparr>, [])"
    by (simp add: expense_row_section_def button_def)
  from a g e s show ?thesis by (intro conjI)
qed

text \<open>
  C4, as the script has it. After the delete handler ran for an id, no row and no listing
  of any owner has that id, and the rows with other ids are kept. The handler has no
  failure branch: it shows the same message whether or not a row had the id, an absent
  id leaves the store as it was, and a second delete of the same id has the outcome of
  the first.
\<close>

theorem delete_expense_effect:
  "i \<notin> set (map e_id (expenses (fst (delete_expense d i)))) \<and>
   i \<notin> set (map ID (get_expenses (fst (delete_expense d i)) uid)) \<and>
   (\<forall>r\<in>set (expenses d). e_id r \<noteq> i \<longrightarrow> r \<in> set (expenses (fst (delete_expense d i)))) \<and>
   snd (delete_expense d i) =
     Warning (''Deleted expense ID '' @ str_nat i @ ''! Refresh to update list.'') \<and>
   (i \<notin> set (map e_id (expenses d)) \<longrightarrow> fst (delete_expense d i) = d) \<and>
   delete_expense (fst (delete_expense d i)) i = delete_expense d i"
proof -
  have absent: "filter (\<lambda>r. e_id r \<noteq> i) rs = rs" if "i \<notin> set (map e_id rs)"
    for rs :: "expense_row list"
    using that by (induction rs) auto
  have a: "i \<notin> set (map e_id (expenses (fst (delete_expense d i))))"
    by (auto simp: expenses_delete_expense)
  have b: "i \<notin> set (map ID (get_expenses (fst (delete_expense d i)) uid))"
    by (auto simp: get_expenses_def expenses_delete_expense)
  have c: "\<forall>r\<in>set (expenses d). e_id r \<noteq> i \<longrightarrow> r \<in> set (expenses (fst (delete_expense d i)))"
    by (simp add: expenses_delete_expense)
  have e: "fst (delete_expense d i) = d" if "i \<notin> set (map e_id (expenses d))"
    using absent [OF that] by (simp add: delete_expense_def)
  have f: "delete_expense (fst (delete_expense d i)) i = delete_expense d i"
    by (simp add: delete_expense_def)
  show ?thesis
    using a b c e f by (simp add: delete_expense_def)
qed

theorem delete_expense_effect_witness:
  "delete_expense (fst (delete_expense
      (fst (add_expense init_db (Some 7) (2024, 1, 5) ''Food'' 100 ''lunch'')) 1)) 1 =
   delete_expense (fst (add_expense init_db (Some 7) (2024, 1, 5) ''Food'' 100 ''lunch'')) 1 \<and>
   get_expenses (fst (delete_expense
      (fst (add_expense init_db (Some 7) (2024, 1, 5) ''Food'' 100 ''lunch'')) 1)) (Some 7) = []"
  using delete_expense_effect
    [of 1 "fst (add_expense init_db (Some 7) (2024, 1, 5) ''Food'' 100 ''lunch'')" "Some 7"]
  by (simp add: delete_expense_def add_expense_def get_expenses_def next_rowid_def init_db_def)

text \<open>
  C4 as stated fails: deleting the id 1 from a store that no longer has it (the state
  after adding the first record and deleting it) is no failure; the store is unchanged
  and the message is the one of a deletion.
\<close>

theorem delete_absent_no_failure:
  "delete_expense
     \<lparr>users = [], users_seq = 0, expenses = [], expenses_seq = 1\<rparr> 1 =
     (\<lparr>users = [], users_seq = 0, expenses = [], expenses_seq = 1\<rparr>,
      Warning ''Deleted expense ID 1! Refresh to update list.'') \<and>
   fst (delete_expense (fst (add_expense init_db (Some 7) (2024, 1, 5) ''Food'' 100 ''lunch'')) 1) =
     \<lparr>users = [], users_seq = 0, expenses = [], expenses_seq = 1\<rparr>"
  by (simp add: delete_expense_def add_expense_def next_rowid_def init_db_def str_nat.simps
      digit_char_table)


text \<open>
  C10. In every state of the store that the script can produce from the empty tables,
  the date of every expense row is an ISO date text. The only statement that writes
  the column and is ever run is the \<^verbatim>\<open>INSERT\<close> of the add section, with the text
  \<^verbatim>\<open>strftime("%Y-%m-%d")\<close> gives for the date of its date input, which lies within
  ten years of today's date and so has a year of four digits.
\<close>

theorem stored_dates_iso:
  assumes "reachable H d"
  shows "\<forall>r\<in>set (expenses d). iso_date (e_date r)"
  using assms
proof (induction rule: reachable.induct)
  case reach_init
  show ?case by (simp add: init_db_def)
next
  case (reach_sign_up d u p c)
  then show ?case by (simp add: expenses_sign_up)
next
  case (reach_add d today trigger uid dp cp ae n d' ms)
  have i: "iso_date (strftime_ymd (date_input today dp))"
    using date_input_today [OF reach_add.hyps(2)] by (rule iso_date_strftime)
  from reach_add.hyps(3) obtain a where a: "number_input 1 1 ae = Inr a"
    by (auto simp: add_expense_section_def Let_def split: sum.splits)
  obtain d1 m1 where
    s: "add_expense d uid (date_input today dp) (selectbox categories 0 cp) a n = (d1, m1)"
    by (cases "add_expense d uid (date_input today dp) (selectbox categories 0 cp) a n") auto
  from reach_add.hyps(3) have
    "d' = (if button trigger Add_Expense
           then fst (add_expense d uid (date_input today dp) (selectbox categories 0 cp) a n)
           else d)"
    unfolding s by (simp add: add_expense_section_def a s split: if_splits)
  with reach_add.IH i show ?case
    by (auto simp: expenses_add_expense split: if_splits)
next
  case (reach_row d trigger row form d' ms)
  from expense_row_section_store [OF reach_row.hyps(2)] reach_row.IH show ?case
    by (auto simp: expenses_delete_expense split: if_splits)
qed

theorem stored_dates_iso_witness:
  "reachable rev
     \<lparr>users = [], users_seq = 0,
      expenses = [\<lparr>e_id = 1, e_user_id = Some 7, e_date = ''2025-06-05'',
                   e_category = ''Food'', e_amount = 100, e_note = ''lunch''\<rparr>],
      expenses_seq = 1\<rparr> \<and>
   iso_date ''2025-06-05''"
proof -
  have c: "clock_date (2025, 6, 1)"
    by (simp add: clock_date_def valid_date_def days_in_month_def)
  have v: "valid_date (2025, 6, 5)" by (simp add: valid_date_def days_in_month_def)
  have a: "add_expense_section init_db (Some Add_Expense) (Some 7) (2025, 6, 1)
      (Some (2025, 6, 5)) (Some 0) (Some 100) ''lunch'' =
     Inr (\<lparr>users = [], users_seq = 0,
           expenses = [\<lparr>e_id = 1, e_user_id = Some 7, e_date = ''2025-06-05'',
                        e_category = ''Food'', e_amount = 100, e_note = ''lunch''\<rparr>],
           expenses_seq = 1\<rparr>,
          [Success ''Expense added successfully!''])"
    by (simp add: add_expense_section_def number_input_def date_input_def v shift_years_def
        days_in_month_def selectbox_def categories_def button_def add_expense_def
        round_to_double_def init_db_def next_rowid_def strftime_ymd_def str_nat.simps
        digit_char_table)
  have r: "reachable rev
     \<lparr>users = [], users_seq = 0,
      expenses = [\<lparr>e_id = 1, e_user_id = Some 7, e_date = ''2025-06-05'',
                   e_category = ''Food'', e_amount = 100, e_note = ''lunch''\<rparr>],
      expenses_seq = 1\<rparr>"
    by (rule reach_add [OF reach_init c a])
  from stored_dates_iso [OF r] r show ?thesis by simp
qed

subsection \<open>Grouping\<close>





lemma sum_groups:
  fixes kvs :: "('k \<times> int) list"
  assumes "finite K" "fst ` set kvs \<subseteq> K"
  shows "(\<Sum>k\<in>K. sum_list (map snd (filter (\<lambda>kv. fst kv = k) kvs))) =
         sum_list (map snd kvs)"
  using assms(2)
proof (induction kvs)
  case Nil
  show ?case by simp
next
  case (Cons kv kvs)
  let ?S = "\<lambda>k. sum_list (map snd (filter (\<lambda>kv. fst kv = k) kvs))"
  have "(\<Sum>k\<in>K. sum_list (map snd (filter (\<lambda>x. fst x = k) (kv # kvs)))) =
        (\<Sum>k\<in>K. (if k = fst kv then snd kv else 0) + ?S k)"
    by (intro sum.cong) auto
  also have "\<dots> = (\<Sum>k\<in>K. if k = fst kv then snd kv else 0) + (\<Sum>k\<in>K. ?S k)"
    by (rule sum.distrib)
  also have "(\<Sum>k\<in>K. if k = fst kv then snd kv else 0) = snd kv"
    using assms(1) Cons.prems by (simp add: sum.delta)
  also have "(\<Sum>k\<in>K. ?S k) = sum_list (map snd kvs)"
    using Cons by simp
  finally show ?case by simp
qed

lemma group_sums_total:
  fixes kvs :: "('k::linorder \<times> int) list"
  shows "sum_list (map (\<lambda>k. sum_list (map snd (filter (\<lambda>kv. fst kv = k) kvs)))
     (sort (remdups (map fst kvs)))) = sum_list (map snd kvs)"
proof -
  have "sum_list (map (\<lambda>k. sum_list (map snd (filter (\<lambda>kv. fst kv = k) kvs)))
      (sort (remdups (map fst kvs)))) =
      (\<Sum>k\<in>set (sort (remdups (map fst kvs))).
        sum_list (map snd (filter (\<lambda>kv. fst kv = k) kvs)))"
    by (rule sum_list_distinct_conv_sum_set) simp
  also have "\<dots> = sum_list (map snd kvs)"
    by (rule sum_groups) simp_all
  finally show ?thesis .
qed

text \<open>
  Where the amounts are not negative and the exact sum of every group is at most
  \<open>2^53\<close>, every addition of a group sum is exact.
\<close>

lemma groupby_sum_exact:
  assumes "\<forall>kv\<in>set kvs. 0 \<le> snd kv"
    and "\<forall>k\<in>fst ` set kvs.
           sum_list (map snd (filter (\<lambda>kv. fst kv = k) kvs)) \<le> 9007199254740992"
  shows "groupby_sum kvs =
     map (\<lambda>k. (k, sum_list (map snd (filter (\<lambda>kv. fst kv = k) kvs))))
       (sort (remdups (map fst kvs)))"
proof -
  have "fsum (map snd (filter (\<lambda>kv. fst kv = k) kvs)) =
        sum_list (map snd (filter (\<lambda>kv. fst kv = k) kvs))"
    if "k \<in> fst ` set kvs" for k
  proof (rule fsum_exact)
    show "\<forall>x\<in>set (map snd (filter (\<lambda>kv. fst kv = k) kvs)). 0 \<le> x"
      using assms(1) by auto
    show "sum_list (map snd (filter (\<lambda>kv. fst kv = k) kvs)) \<le> 9007199254740992"
      using assms(2) that by blast
  qed
  then show ?thesis
    unfolding groupby_sum_def by (intro map_cong) simp_all
qed

lemma sum_list_filter_le:
  assumes "\<forall>kv\<in>set kvs. 0 \<le> snd kv"
  shows "sum_list (map snd (filter P kvs)) \<le> sum_list (map (snd :: 'a \<times> int \<Rightarrow> int) kvs)"
  using assms by (induction kvs) (auto simp: sum_list_nonneg intro: add_increasing)

lemma keyed_group:
  "map snd (filter (\<lambda>kv. fst kv = k) (map (\<lambda>r. (key r, Amount r)) df)) =
   map Amount (filter (\<lambda>r. key r = k) df)"
  by (induction df) auto

lemma category_summary_exact:
  assumes "\<forall>r\<in>set df. 0 \<le> Amount r"
    and "\<forall>c\<in>Category ` set df. category_total df c \<le> 9007199254740992"
  shows "category_summary df =
     map (\<lambda>c. (c, category_total df c)) (sort (remdups (map Category df)))"
proof -
  let ?kvs = "map (\<lambda>r. (Category r, Amount r)) df"
  have k: "fst ` set ?kvs = Category ` set df" by (simp add: image_image)
  have n: "\<forall>kv\<in>set ?kvs. 0 \<le> snd kv" using assms(1) by auto
  have b: "\<forall>k\<in>fst ` set ?kvs.
      sum_list (map snd (filter (\<lambda>kv. fst kv = k) ?kvs)) \<le> 9007199254740992"
    unfolding k keyed_group using assms(2) by (simp add: category_total_def)
  show ?thesis
    unfolding category_summary_def groupby_sum_exact [OF n b] keyed_group
    by (simp add: category_total_def o_def)
qed

text \<open>
  C2, within the range of exact sums. For a frame whose amounts are not negative and
  whose exact total is at most \<open>2^53\<close>, the total is the exact sum of the amounts,
  every entry of the summary by category is the exact sum of its category, and the
  total is the sum of the entries (added exactly or as doubles).
\<close>

theorem total_is_sum_of_categories:
  assumes "\<forall>r\<in>set df. 0 \<le> Amount r"
    and "sum_list (map Amount df) \<le> 9007199254740992"
  shows "total_expense df = sum_list (map Amount df) \<and>
         category_summary df =
           map (\<lambda>c. (c, category_total df c)) (sort (remdups (map Category df))) \<and>
         total_expense df = sum_list (map snd (category_summary df)) \<and>
         total_expense df = fsum (map snd (category_summary df))"
proof -
  let ?kvs = "map (\<lambda>r. (Category r, Amount r)) df"
  have n: "\<forall>kv\<in>set ?kvs. 0 \<le> snd kv" using assms(1) by auto
  have a: "map snd ?kvs = map Amount df" by (simp add: o_def)
  have t: "total_expense df = sum_list (map Amount df)"
    using fsum_exact [of "map Amount df"] assms by (simp add: total_expense_def)
  have le: "category_total df c \<le> sum_list (map Amount df)" for c
    using sum_list_filter_le [OF n, of "\<lambda>kv. fst kv = c"]
    unfolding keyed_group a by (simp add: category_total_def)
  have b: "\<forall>c\<in>Category ` set df. category_total df c \<le> 9007199254740992"
    using le assms(2) by (meson order_trans)
  note e = category_summary_exact [OF assms(1) b]
  have "sum_list (map snd (category_summary df)) =
      sum_list (map (\<lambda>k. sum_list (map snd (filter (\<lambda>kv. fst kv = k) ?kvs)))
        (sort (remdups (map fst ?kvs))))"
    unfolding e keyed_group by (simp add: o_def category_total_def)
  also have "\<dots> = sum_list (map Amount df)"
    unfolding group_sums_total a ..
  finally have s: "sum_list (map snd (category_summary df)) = sum_list (map Amount df)" .
  have p: "\<forall>x\<in>set (map snd (category_summary df)). 0 \<le> x"
    unfolding e using assms(1) by (auto simp: category_total_def intro!: sum_list_nonneg)
  have f: "fsum (map snd (category_summary df)) = sum_list (map snd (category_summary df))"
    using p by (rule fsum_exact) (simp add: s assms(2))
  from t e s f show ?thesis by simp
qed

theorem total_is_sum_of_categories_witness:
  "total_expense
     [\<lparr>ID = 1, Date = ''2024-01-05'', Category = ''Food'', Amount = 100, Note = []\<rparr>,
      \<lparr>ID = 2, Date = ''2024-01-20'', Category = ''Travel'', Amount = 50, Note = []\<rparr>,
      \<lparr>ID = 3, Date = ''2024-02-01'', Category = ''Food'', Amount = 30, Note = []\<rparr>] = 180 \<and>
   category_summary
     [\<lparr>ID = 1, Date = ''2024-01-05'', Category = ''Food'', Amount = 100, Note = []\<rparr>,
      \<lparr>ID = 2, Date = ''2024-01-20'', Category = ''Travel'', Amount = 50, Note = []\<rparr>,
      \<lparr>ID = 3, Date = ''2024-02-01'', Category = ''Food'', Amount = 30, Note = []\<rparr>] =
     [(''Food'', 130), (''Travel'', 50)]"
  using total_is_sum_of_categories
    [of "[\<lparr>ID = 1, Date = ''2024-01-05'', Category = ''Food'', Amount = 100, Note = []\<rparr>,
      \<lparr>ID = 2, Date = ''2024-01-20'', Category = ''Travel'', Amount = 50, Note = []\<rparr>,
      \<lparr>ID = 3, Date = ''2024-02-01'', Category = ''Food'', Amount = 30, Note = []\<rparr>]"]
  by (simp add: category_total_def)

text \<open>
  C2 as stated fails beyond that range: for the amounts \<open>2^53 - 1\<close>, 2 and 1, which
  the number input takes, the total is \<open>2^53\<close>, while the entries of the summary
  by category, \<open>2^53\<close> and 2, add up to \<open>2^53 + 2\<close>.
\<close>

theorem total_differs_from_categories:
  "total_expense
     [\<lparr>ID = 1, Date = ''2024-01-05'', Category = ''Food'', Amount = 9007199254740991,
        Note = []\<rparr>,
      \<lparr>ID = 2, Date = ''2024-01-20'', Category = ''Travel'', Amount = 2, Note = []\<rparr>,
      \<lparr>ID = 3, Date = ''2024-02-01'', Category = ''Food'', Amount = 1, Note = []\<rparr>] =
     9007199254740992 \<and>
   category_summary
     [\<lparr>ID = 1, Date = ''2024-01-05'', Category = ''Food'', Amount = 9007199254740991,
        Note = []\<rparr>,
      \<lparr>ID = 2, Date = ''2024-01-20'', Category = ''Travel'', Amount = 2, Note = []\<rparr>,
      \<lparr>ID = 3, Date = ''2024-02-01'', Category = ''Food'', Amount = 1, Note = []\<rparr>] =
     [(''Food'', 9007199254740992), (''Travel'', 2)] \<and>
   fsum [9007199254740992, 2] = 9007199254740994 \<and>
   sum_list [9007199254740992, 2 :: int] = 9007199254740994"
  by (simp add: total_expense_def category_summary_def groupby_sum_def fsum_def fadd_def
      round_to_double_def)

subsection \<open>The first maximum\<close>







subsection \<open>The order of date texts\<close>

lemma two_digit_less:
  fixes x v :: nat
  assumes "v < 10" "v' < 10"
  shows "10 * x + v < 10 * x' + v' \<longleftrightarrow> x < x' \<or> x = x' \<and> v < v'"
  using assms by arith

lemma two_digit_eq:
  fixes x v :: nat
  assumes "v < 10" "v' < 10"
  shows "10 * x + v = 10 * x' + v' \<longleftrightarrow> x = x' \<and> v = v'"
proof
  assume e: "10 * x + v = 10 * x' + v'"
  have "(10 * x + v) div 10 = x" "(10 * x' + v') div 10 = x'"
    using assms by simp_all
  with e have x: "x = x'" by simp
  with e have "v = v'" by simp
  with x show "x = x' \<and> v = v'" by simp
next
  assume "x = x' \<and> v = v'"
  then show "10 * x + v = 10 * x' + v'" by simp
qed

lemma horner4: "1000 * a + 100 * b + 10 * c + d = 10 * (10 * (10 * a + b) + c) + (d::nat)"
  by simp

lemma four_digit_less:
  fixes a b c d :: nat
  assumes "b < 10" "c < 10" "d < 10" "b' < 10" "c' < 10" "d' < 10"
  shows "1000 * a + 100 * b + 10 * c + d < 1000 * a' + 100 * b' + 10 * c' + d' \<longleftrightarrow>
         a < a' \<or> a = a' \<and> (b < b' \<or> b = b' \<and> (c < c' \<or> c = c' \<and> d < d'))"
proof -
  note l1 = two_digit_less [OF assms(3) assms(6), of "10 * (10 * a + b) + c" "10 * (10 * a' + b') + c'"]
  note l2 = two_digit_less [OF assms(2) assms(5), of "10 * a + b" "10 * a' + b'"]
  note l3 = two_digit_less [OF assms(1) assms(4), of a a']
  note e2 = two_digit_eq [OF assms(2) assms(5), of "10 * a + b" "10 * a' + b'"]
  note e3 = two_digit_eq [OF assms(1) assms(4), of a a']
  show ?thesis
    unfolding horner4 l1 l2 l3 e2 e3 by blast
qed

lemma four_digit_eq:
  fixes a b c d :: nat
  assumes "b < 10" "c < 10" "d < 10" "b' < 10" "c' < 10" "d' < 10"
  shows "1000 * a + 100 * b + 10 * c + d = 1000 * a' + 100 * b' + 10 * c' + d' \<longleftrightarrow>
         a = a' \<and> b = b' \<and> c = c' \<and> d = d'"
proof -
  note e1 = two_digit_eq [OF assms(3) assms(6), of "10 * (10 * a + b) + c" "10 * (10 * a' + b') + c'"]
  note e2 = two_digit_eq [OF assms(2) assms(5), of "10 * a + b" "10 * a' + b'"]
  note e3 = two_digit_eq [OF assms(1) assms(4), of a a']
  show ?thesis
    unfolding horner4 e1 e2 e3 by blast
qed

lemma digit_val_less: "is_digit c \<Longrightarrow> digit_val c < 10"
  unfolding is_digit_def digit_val_def by arith

lemma digit_less_iff: "is_digit c \<Longrightarrow> is_digit c' \<Longrightarrow> c < c' \<longleftrightarrow> digit_val c < digit_val c'"
  unfolding is_digit_def digit_val_def less_char_def by arith

lemma digit_eq_iff:
  assumes "is_digit c" "is_digit c'"
  shows "c = c' \<longleftrightarrow> digit_val c = digit_val c'"
proof
  assume "digit_val c = digit_val c'"
  with assms have "(of_char c :: nat) = of_char c'"
    unfolding is_digit_def digit_val_def by arith
  then show "c = c'" by simp
qed simp

lemma iso_date_digits:
  assumes "iso_date s"
  shows "is_digit (s ! 0)" "is_digit (s ! 1)" "is_digit (s ! 2)" "is_digit (s ! 3)"
    "is_digit (s ! 5)" "is_digit (s ! 6)" "is_digit (s ! 8)" "is_digit (s ! 9)"
  using assms by (simp_all add: iso_date_def)

lemma iso_date_expand:
  assumes "iso_date s"
  shows "s = [s ! 0, s ! 1, s ! 2, s ! 3, CHR ''-'', s ! 5, s ! 6, CHR ''-'', s ! 8, s ! 9]"
proof -
  from assms have "length s = 10" by (simp add: iso_date_def)
  then obtain c0 c1 c2 c3 c4 c5 c6 c7 c8 c9 where
    s: "s = [c0, c1, c2, c3, c4, c5, c6, c7, c8, c9]"
    by (auto simp: eval_nat_numeral length_Suc_conv)
  from assms have "c4 = CHR ''-''" "c7 = CHR ''-''"
    unfolding s iso_date_def by simp_all
  then show ?thesis
    unfolding s by simp
qed

lemma lex_date_text:
  fixes a0 :: char
  assumes "[a0, a1, a2, a3, CHR ''-'', a5, a6, CHR ''-'', a8, a9] \<le>
           [b0, b1, b2, b3, CHR ''-'', b5, b6, CHR ''-'', b8, b9]"
  shows "a0 < b0 \<or> a0 = b0 \<and> (a1 < b1 \<or> a1 = b1 \<and> (a2 < b2 \<or> a2 = b2 \<and>
     (a3 < b3 \<or> a3 = b3 \<and> (a5 < b5 \<or> a5 = b5 \<and> (a6 < b6 \<or> a6 = b6 \<and>
     (a8 < b8 \<or> a8 = b8 \<and> (a9 < b9 \<or> a9 = b9)))))))"
  using assms
  by (simp only: Cons_le_Cons Nil_le_Cons simp_thms order.strict_iff_order [of "CHR ''-''"])

lemma date_order:
  fixes Y M D :: nat
  assumes "Y < Y' \<or> Y = Y' \<and> (M < M' \<or> M = M' \<and> (D < D' \<or> D = D'))"
  shows "(Y, M, D) \<le> (Y', M', D')"
  using assms by auto

lemma date_fields_mono:
  assumes "iso_date s" "iso_date t" "s \<le> t"
  shows "date_fields s \<le> date_fields t"
proof -
  note a = iso_date_digits [OF assms(1)]
  note b = iso_date_digits [OF assms(2)]
  note s = iso_date_expand [OF assms(1)]
  note t = iso_date_expand [OF assms(2)]
  note lt = digit_less_iff [OF a(1) b(1)] digit_less_iff [OF a(2) b(2)]
    digit_less_iff [OF a(3) b(3)] digit_less_iff [OF a(4) b(4)]
    digit_less_iff [OF a(5) b(5)] digit_less_iff [OF a(6) b(6)]
    digit_less_iff [OF a(7) b(7)] digit_less_iff [OF a(8) b(8)]
  note eq = digit_eq_iff [OF a(1) b(1)] digit_eq_iff [OF a(2) b(2)]
    digit_eq_iff [OF a(3) b(3)] digit_eq_iff [OF a(4) b(4)]
    digit_eq_iff [OF a(5) b(5)] digit_eq_iff [OF a(6) b(6)]
    digit_eq_iff [OF a(7) b(7)] digit_eq_iff [OF a(8) b(8)]
  note va = a [THEN digit_val_less]
  note vb = b [THEN digit_val_less]
  note y_less = four_digit_less [OF va(2) va(3) va(4) vb(2) vb(3) vb(4),
      of "digit_val (s ! 0)" "digit_val (t ! 0)"]
  note y_eq = four_digit_eq [OF va(2) va(3) va(4) vb(2) vb(3) vb(4),
      of "digit_val (s ! 0)" "digit_val (t ! 0)"]
  note m_less = two_digit_less [OF va(6) vb(6), of "digit_val (s ! 5)" "digit_val (t ! 5)"]
  note m_eq = two_digit_eq [OF va(6) vb(6), of "digit_val (s ! 5)" "digit_val (t ! 5)"]
  note d_less = two_digit_less [OF va(8) vb(8), of "digit_val (s ! 8)" "digit_val (t ! 8)"]
  note d_eq = two_digit_eq [OF va(8) vb(8), of "digit_val (s ! 8)" "digit_val (t ! 8)"]
  have "[s ! 0, s ! 1, s ! 2, s ! 3, CHR ''-'', s ! 5, s ! 6, CHR ''-'', s ! 8, s ! 9] \<le>
        [t ! 0, t ! 1, t ! 2, t ! 3, CHR ''-'', t ! 5, t ! 6, CHR ''-'', t ! 8, t ! 9]"
    using assms(3) s t by simp
  from lex_date_text [OF this]
  have "(1000 * digit_val (s ! 0) + 100 * digit_val (s ! 1) + 10 * digit_val (s ! 2)
          + digit_val (s ! 3),
         10 * digit_val (s ! 5) + digit_val (s ! 6), 10 * digit_val (s ! 8) + digit_val (s ! 9))
      \<le> (1000 * digit_val (t ! 0) + 100 * digit_val (t ! 1) + 10 * digit_val (t ! 2)
          + digit_val (t ! 3),
         10 * digit_val (t ! 5) + digit_val (t ! 6), 10 * digit_val (t ! 8) + digit_val (t ! 9))"
    unfolding lt eq by (intro date_order) (simp only: y_less y_eq m_less m_eq d_less d_eq, blast)
  then show ?thesis
    by (simp only: date_fields_def)
qed

subsection \<open>Filtering\<close>

lemma to_datetime_col_iso:
  assumes "\<forall>s\<in>set ss. iso_date s"
  shows "to_datetime_col ss = Inr (map date_fields ss)"
  using assms by (induction ss) (simp_all add: to_datetime_def)

lemma mask_rows_map: "mask_rows xs (map q xs) = filter q xs"
  unfolding mask_rows_def by (induction xs) simp_all

lemma filter_expenses_iso:
  assumes "\<forall>r\<in>set df. iso_date (Date r)"
  shows "filter_expenses df c s e =
     Inr (filter (\<lambda>r. (c = ''All'' \<or> Category r = c) \<and> s \<le> record_date r \<and> record_date r \<le> e) df)"
proof -
  define fd where "fd = (if c \<noteq> ''All'' then filter (\<lambda>r. Category r = c) df else df)"
  have iso: "\<forall>s\<in>set (map Date fd). iso_date s"
    using assms by (auto simp: fd_def)
  have m: "map (\<lambda>dt. s \<le> dt \<and> dt \<le> e) (map date_fields (map Date fd)) =
           map (\<lambda>r. s \<le> record_date r \<and> record_date r \<le> e) fd"
    by (simp add: record_date_def o_def)
  have "filter_expenses df c s e =
      Inr (filter (\<lambda>r. s \<le> record_date r \<and> record_date r \<le> e) fd)"
    unfolding filter_expenses_def Let_def fd_def [symmetric]
    by (simp only: to_datetime_col_iso [OF iso] m mask_rows_map sum.case)
  also have "filter (\<lambda>r. s \<le> record_date r \<and> record_date r \<le> e) fd =
      filter (\<lambda>r. (c = ''All'' \<or> Category r = c) \<and> s \<le> record_date r \<and> record_date r \<le> e) df"
    by (cases "c = ''All''") (simp_all add: fd_def conj_commute)
  finally show ?thesis .
qed

lemma col_min_Min: "xs \<noteq> [] \<Longrightarrow> col_min xs = Some (Min (set xs))"
proof (cases xs)
  case (Cons x ys)
  show ?thesis unfolding Cons by (simp only: col_min.simps Min.set_eq_fold)
qed simp

lemma col_max_Max: "xs \<noteq> [] \<Longrightarrow> col_max xs = Some (Max (set xs))"
proof (cases xs)
  case (Cons x ys)
  show ?thesis unfolding Cons by (simp only: col_max.simps Max.set_eq_fold)
qed simp

lemma default_dates:
  assumes ne: "df \<noteq> []" and iso: "\<forall>r\<in>set df. iso_date (Date r)"
  shows "default_start_date df = Some (Inr (Min (record_date ` set df)))"
    and "default_end_date df = Some (Inr (Max (record_date ` set df)))"
proof -
  let ?S = "set (map Date df)"
  have fin: "finite ?S" and nes: "?S \<noteq> {}" using ne by simp_all
  have isoS: "iso_date x" if "x \<in> ?S" for x using that iso by auto
  have img: "record_date ` set df = date_fields ` ?S"
    by (simp add: image_image record_date_def)
  have lo: "Min ?S \<in> ?S" and hi: "Max ?S \<in> ?S"
    using fin nes by (rule Min_in, rule Max_in)
  have "Min (date_fields ` ?S) = date_fields (Min ?S)"
  proof (rule Min_eqI)
    show "finite (date_fields ` ?S)" by simp
    show "date_fields (Min ?S) \<in> date_fields ` ?S" using lo by (rule imageI)
    fix y assume "y \<in> date_fields ` ?S"
    then obtain x where x: "x \<in> ?S" "y = date_fields x" by blast
    have "Min ?S \<le> x" using fin x(1) by (rule Min_le)
    with isoS [OF lo] isoS [OF x(1)] show "date_fields (Min ?S) \<le> y"
      unfolding x(2) by (rule date_fields_mono)
  qed
  moreover have "to_datetime (Min ?S) = Inr (date_fields (Min ?S))"
    using isoS [OF lo] by (simp add: to_datetime_def)
  ultimately show "default_start_date df = Some (Inr (Min (record_date ` set df)))"
    unfolding default_start_date_def img using col_min_Min [of "map Date df"] ne by simp
  have "Max (date_fields ` ?S) = date_fields (Max ?S)"
  proof (rule Max_eqI)
    show "finite (date_fields ` ?S)" by simp
    show "date_fields (Max ?S) \<in> date_fields ` ?S" using hi by (rule imageI)
    fix y assume "y \<in> date_fields ` ?S"
    then obtain x where x: "x \<in> ?S" "y = date_fields x" by blast
    have "x \<le> Max ?S" using fin x(1) by (rule Max_ge)
    with isoS [OF x(1)] isoS [OF hi] show "y \<le> date_fields (Max ?S)"
      unfolding x(2) by (rule date_fields_mono)
  qed
  moreover have "to_datetime (Max ?S) = Inr (date_fields (Max ?S))"
    using isoS [OF hi] by (simp add: to_datetime_def)
  ultimately show "default_end_date df = Some (Inr (Max (record_date ` set df)))"
    unfolding default_end_date_def img using col_max_Max [of "map Date df"] ne by simp
qed

text \<open>
  C7. On a frame of stored records (every date an ISO date text) the filter with the
  category \<^verbatim>\<open>"All"\<close> keeps exactly the records whose date lies between the start
  and the end date, both included. The defaults of the two date widgets are the
  earliest and the latest date of the frame, and with them the filter returns the
  frame itself, every record in its place.
\<close>

theorem filter_all_full_range:
  assumes "\<forall>r\<in>set df. iso_date (Date r)"
  shows "(\<forall>s e. filter_expenses df ''All'' s e =
            Inr (filter (\<lambda>r. s \<le> record_date r \<and> record_date r \<le> e) df)) \<and>
         (df \<noteq> [] \<longrightarrow>
            default_start_date df = Some (Inr (Min (record_date ` set df))) \<and>
            default_end_date df = Some (Inr (Max (record_date ` set df))) \<and>
            filter_expenses df ''All'' (Min (record_date ` set df)) (Max (record_date ` set df)) =
              Inr df)"
proof (intro conjI allI impI)
  fix s e
  show "filter_expenses df ''All'' s e =
      Inr (filter (\<lambda>r. s \<le> record_date r \<and> record_date r \<le> e) df)"
    by (simp add: filter_expenses_iso [OF assms])
next
  assume "df \<noteq> []"
  then show "default_start_date df = Some (Inr (Min (record_date ` set df)))"
    using assms by (rule default_dates(1))
next
  assume "df \<noteq> []"
  then show "default_end_date df = Some (Inr (Max (record_date ` set df)))"
    using assms by (rule default_dates(2))
next
  assume "df \<noteq> []"
  have "filter (\<lambda>r. Min (record_date ` set df) \<le> record_date r \<and>
                   record_date r \<le> Max (record_date ` set df)) df = df"
    by (simp add: filter_id_conv)
  then show "filter_expenses df ''All'' (Min (record_date ` set df))
      (Max (record_date ` set df)) = Inr df"
    by (simp add: filter_expenses_iso [OF assms])
qed

theorem filter_all_full_range_witness:
  "default_start_date
     [\<lparr>ID = 1, Date = ''2024-01-20'', Category = ''Travel'', Amount = 50, Note = []\<rparr>,
      \<lparr>ID = 2, Date = ''2024-01-05'', Category = ''Food'', Amount = 100, Note = []\<rparr>,
      \<lparr>ID = 3, Date = ''2024-02-01'', Category = ''Food'', Amount = 30, Note = []\<rparr>] =
     Some (Inr (2024, 1, 5)) \<and>
   default_end_date
     [\<lparr>ID = 1, Date = ''2024-01-20'', Category = ''Travel'', Amount = 50, Note = []\<rparr>,
      \<lparr>ID = 2, Date = ''2024-01-05'', Category = ''Food'', Amount = 100, Note = []\<rparr>,
      \<lparr>ID = 3, Date = ''2024-02-01'', Category = ''Food'', Amount = 30, Note = []\<rparr>] =
     Some (Inr (2024, 2, 1)) \<and>
   filter_expenses
     [\<lparr>ID = 1, Date = ''2024-01-20'', Category = ''Travel'', Amount = 50, Note = []\<rparr>,
      \<lparr>ID = 2, Date = ''2024-01-05'', Category = ''Food'', Amount = 100, Note = []\<rparr>,
      \<lparr>ID = 3, Date = ''2024-02-01'', Category = ''Food'', Amount = 30, Note = []\<rparr>]
     ''All'' (2024, 1, 5) (2024, 2, 1) =
     Inr [\<lparr>ID = 1, Date = ''2024-01-20'', Category = ''Travel'', Amount = 50, Note = []\<rparr>,
      \<lparr>ID = 2, Date = ''2024-01-05'', Category = ''Food'', Amount = 100, Note = []\<rparr>,
      \<lparr>ID = 3, Date = ''2024-02-01'', Category = ''Food'', Amount = 30, Note = []\<rparr>]"
proof -
  define df where "df =
     [\<lparr>ID = 1, Date = ''2024-01-20'', Category = ''Travel'', Amount = 50, Note = []\<rparr>,
      \<lparr>ID = 2, Date = ''2024-01-05'', Category = ''Food'', Amount = 100, Note = []\<rparr>,
      \<lparr>ID = 3, Date = ''2024-02-01'', Category = ''Food'', Amount = 30, Note = []\<rparr>]"
  have d: "date_fields ''2024-01-20'' = (2024, 1, 20)" "date_fields ''2024-01-05'' = (2024, 1, 5)"
    "date_fields ''2024-02-01'' = (2024, 2, 1)"
    by (simp_all add: date_fields_def digit_val_def)
  have iso: "\<forall>r\<in>set df. iso_date (Date r)"
    by (simp add: df_def iso_date_def d is_digit_def valid_date_def days_in_month_def is_leap_def)
  have lo: "Min (record_date ` set df) = (2024, 1, 5)"
    by (simp add: df_def record_date_def d)
  have hi: "Max (record_date ` set df) = (2024, 2, 1)"
    by (simp add: df_def record_date_def d)
  have ne: "df \<noteq> []" by (simp add: df_def)
  show ?thesis
    using filter_all_full_range [OF iso] ne unfolding lo hi unfolding df_def by blast
qed


subsection \<open>The monthly report\<close>







end
